theory Spec2Isabelle
  imports Main "HOL-Library.Word"
begin

section \<open>The voice manager of the Discord client (src/clients/discord/voice.ts)\<close>

text \<open>
  The theory embeds the four pieces of \<^verbatim>\<open>VoiceManager\<close> that carry logic of their own:
  the buffering callback of \<^verbatim>\<open>handleUserStream\<close> with the utterance pipeline it starts,
  \<^verbatim>\<open>scanGuild\<close>, \<^verbatim>\<open>monitorMember\<close> and \<^verbatim>\<open>playAudioStream\<close>.

  Objects of the platform SDK (connections, players, decoders, streams) are handles
  (natural numbers); a handle made by \<^verbatim>\<open>new\<close> or by a factory function is the value of
  an allocation counter. The clock \<^verbatim>\<open>Date.now()\<close> is an integer number of milliseconds
  handed in with each event. Collaborators outside the class (transcription, agent,
  message manager, speech synthesis) answer through a record of functions, each
  answer either a thrown error or a value.
\<close>

subsection \<open>Buffers\<close>

type_synonym byte = "8 word"
type_synonym buffer = "byte list"

text \<open>
  \<^verbatim>\<open>Buffer.concat(list, totalLength)\<close> of Node: a buffer of exactly \<^verbatim>\<open>totalLength\<close>
  bytes, filled with the buffers of the list in order, cut when they are longer and
  padded with zero bytes when they are shorter.
\<close>

definition Buffer_concat :: "buffer list \<Rightarrow> nat \<Rightarrow> buffer" where
  "Buffer_concat list n =
     take n (concat list) @ replicate (n - length (concat list)) 0"

subsection \<open>The buffering callback of handleUserStream (lines 81 to 98)\<close>

text \<open>
  The closure variables \<^verbatim>\<open>buffers\<close>, \<^verbatim>\<open>totalLength\<close> and \<^verbatim>\<open>lastChunkTime\<close>.
\<close>

record accumulator =
  buffers :: "buffer list"
  totalLength :: nat
  lastChunkTime :: int

definition maxSilenceTime :: int where
  "maxSilenceTime = 500"

text \<open>
  \<^verbatim>\<open>handleUserStream\<close> starts with no buffers, length zero and the time of its own call.
\<close>

definition initial :: "int \<Rightarrow> accumulator" where
  "initial now = \<lparr> buffers = [], totalLength = 0, lastChunkTime = now \<rparr>"

text \<open>
  The part of the callback before its first \<^verbatim>\<open>await\<close>: it runs without interruption.
  \<open>currentTime\<close> is the value of \<^verbatim>\<open>Date.now()\<close> at the call. The result is the new
  accumulator and, when the flush branch is taken, \<^verbatim>\<open>inputBuffer\<close>.
\<close>

definition monitor_callback ::
  "accumulator \<Rightarrow> int \<Rightarrow> buffer \<Rightarrow> accumulator \<times> buffer option" where
  "monitor_callback a currentTime buffer =
     (let silenceDuration = currentTime - lastChunkTime a;
          a1 = a\<lparr> buffers := buffers a @ [buffer],
                  totalLength := totalLength a + length buffer,
                  lastChunkTime := currentTime \<rparr>
      in if silenceDuration > maxSilenceTime \<or> totalLength a1 \<ge> 1000000
         then (let inputBuffer = Buffer_concat (buffers a1) (totalLength a1)
               in (a1\<lparr> buffers := [], totalLength := 0 \<rparr>, Some inputBuffer))
         else (a1, None))"

text \<open>
  A run of the callback over the chunks the monitor delivers, each with its arrival
  time: the final accumulator and, per chunk, the utterance flushed at it, if any.
\<close>

fun feed :: "accumulator \<Rightarrow> (int \<times> buffer) list \<Rightarrow> accumulator \<times> buffer option list" where
  "feed a [] = (a, [])"
| "feed a ((now, buffer) # rest) =
     (let (a1, out) = monitor_callback a now buffer;
          (a2, outs) = feed a1 rest
      in (a2, out # outs))"

text \<open>
  Reading a run: the chunks delivered after the last flush, and whether every gap
  (the first one counted from the start of the monitor) is at most the silence limit.
\<close>

fun since_flush :: "buffer option list \<Rightarrow> buffer list \<Rightarrow> buffer list \<Rightarrow> buffer list" where
  "since_flush (out # outs) (c # cs) pending =
     since_flush outs cs (case out of None \<Rightarrow> pending @ [c] | Some _ \<Rightarrow> [])"
| "since_flush _ _ pending = pending"

fun gaps_within :: "int \<Rightarrow> (int \<times> buffer) list \<Rightarrow> bool" where
  "gaps_within prev [] = True"
| "gaps_within prev ((now, buffer) # rest) =
     (now - prev \<le> 500 \<and> gaps_within now rest)"

text \<open>
  The same for the gaps between one chunk and the next only, whenever the first chunk
  arrives.
\<close>

fun inter_arrival_within :: "(int \<times> buffer) list \<Rightarrow> bool" where
  "inter_arrival_within [] = True"
| "inter_arrival_within ((now, buffer) # rest) = gaps_within now rest"

subsection \<open>Handles, errors and the registry of the voice manager\<close>

datatype error = TypeError string | Thrown string

type_synonym connection = nat
type_synonym player = nat
type_synonym decoder = nat
type_synonym readable = nat

text \<open>
  \<^verbatim>\<open>streams\<close> and \<^verbatim>\<open>connections\<close> are the two maps of the class, keyed by user id.
  \<^verbatim>\<open>Map.get\<close> of an absent key and a stored \<^verbatim>\<open>undefined\<close> both compare equal to
  \<^verbatim>\<open>null\<close>, so both are \<open>None\<close>. The two counters number the players and decoders
  made so far.
\<close>

record voice_manager =
  streams :: "string \<rightharpoonup> decoder"
  connections :: "string \<rightharpoonup> connection"
  players_made :: nat
  decoders_made :: nat

record member =
  member_id :: string
  displayName :: string
  bot :: bool
  member_guild :: string

datatype ChannelType = GuildText | DM | GuildVoice | GroupDM | GuildCategory | GuildStageVoice

record channel =
  channel_id :: string
  channel_type :: ChannelType
  members :: "member list"

datatype effect =
    ConsoleLog string
  | ConsoleError string error
  | UnhandledRejection error
  | CreateAudioPlayer player
  | ConnectionSubscribe connection player
  | CreateAudioResource readable
  | PlayerPlay player readable
  | PlayerOn player string
  | NewOpusDecoder decoder
  | StreamPipeline "readable option" decoder
  | DecoderOn decoder string
  | ReceiveStreamOn readable string
  | EmitUserStream string string channel decoder
  | Transcribe buffer
  | FetchBotName string
  | EnsureUserExists string string
  | EnsureRoomExists string
  | EnsureParticipantInRoom string string
  | ComposeState "string option" string string string
  | HandleMessage "string option" string string string
  | TextToSpeech string
  | Raised error

subsection \<open>playAudioStream (lines 268 to 301)\<close>

text \<open>
  A method call on \<^verbatim>\<open>undefined\<close> throws a TypeError; \<open>connection_subscribe\<close> is
  \<^verbatim>\<open>connection.subscribe(audioPlayer)\<close> for a connection that may be missing.
\<close>

definition connection_subscribe :: "connection option \<Rightarrow> player \<Rightarrow> error + effect" where
  "connection_subscribe connection audioPlayer =
     (case connection of
        None \<Rightarrow> Inl (TypeError ''Cannot read properties of undefined'')
      | Some c \<Rightarrow> Inr (ConnectionSubscribe c audioPlayer))"

text \<open>
  The result is what the promise of the async method settles to (\<open>Inl\<close>: rejected), the
  new state and the effects in order. The method has no \<^verbatim>\<open>await\<close>.
\<close>

definition playAudioStream ::
  "voice_manager \<Rightarrow> string \<Rightarrow> readable \<Rightarrow> (error + unit) \<times> voice_manager \<times> effect list" where
  "playAudioStream vm user_id audioStream =
     (let connection = connections vm user_id
      in if connection = None
         then (Inr (), vm, [ConsoleLog (''No connection for user '' @ user_id)])
         else
           (let audioPlayer = players_made vm;
                vm1 = vm\<lparr> players_made := Suc (players_made vm) \<rparr>
            in case connection_subscribe connection audioPlayer of
                 Inl e \<Rightarrow> (Inl e, vm1, [CreateAudioPlayer audioPlayer])
               | Inr subscribed \<Rightarrow>
                   (Inr (), vm1,
                    [CreateAudioPlayer audioPlayer, subscribed,
                     CreateAudioResource audioStream,
                     PlayerPlay audioPlayer audioStream,
                     PlayerOn audioPlayer ''error'',
                     PlayerOn audioPlayer ''stateChange''])))"

subsection \<open>scanGuild (lines 156 to 176)\<close>

text \<open>
  The loop over the voice channels, \<open>chosenChannel\<close> being the variable it updates.
\<close>

fun scan_loop :: "channel option \<Rightarrow> channel list \<Rightarrow> channel option" where
  "scan_loop chosenChannel [] = chosenChannel"
| "scan_loop chosenChannel (voiceChannel # rest) =
     scan_loop
       (if length (members voiceChannel) > 0 \<and>
           (case chosenChannel of
              None \<Rightarrow> True
            | Some chosen \<Rightarrow> length (members voiceChannel) > length (members chosen))
        then Some voiceChannel
        else chosenChannel)
       rest"

text \<open>
  \<open>fetched\<close> is what \<^verbatim>\<open>guild.channels.fetch()\<close> resolves to, in its iteration order; an
  entry may be \<^verbatim>\<open>null\<close>. The filter keeps the entries of type \<^verbatim>\<open>GuildVoice\<close>.
  The result is the channel handed to \<^verbatim>\<open>joinChannel\<close>, \<open>None\<close> when it is not called.
\<close>

definition voice_channels :: "channel option list \<Rightarrow> channel list" where
  "voice_channels fetched =
     [ch. Some ch \<leftarrow> fetched, channel_type ch = GuildVoice]"

definition scanGuild :: "channel option list \<Rightarrow> channel option" where
  "scanGuild fetched = scan_loop None (voice_channels fetched)"

text \<open>The members of a channel that are not bots.\<close>

definition non_bot_members :: "channel \<Rightarrow> member list" where
  "non_bot_members ch = filter (\<lambda>m. \<not> bot m) (members ch)"

subsection \<open>monitorMember (lines 214 to 266)\<close>

text \<open>
  The receive stream that \<^verbatim>\<open>connection.receiver.subscribe\<close> returns, with the number of
  bytes waiting in it at that moment.
\<close>

record receive_stream =
  stream_handle :: readable
  readableLength :: nat

text \<open>
  The platform SDK as \<^verbatim>\<open>monitorMember\<close> uses it: the connection of a guild, the
  subscription of a user on a connection, and whether \<^verbatim>\<open>pipeline\<close> of Node accepts its
  arguments or throws.
\<close>

record sdk =
  getVoiceConnection :: "string \<rightharpoonup> connection"
  receiver_subscribe :: "connection \<Rightarrow> string \<Rightarrow> receive_stream"
  stream_pipeline :: "readable option \<Rightarrow> decoder \<Rightarrow> error option"

definition monitorMember ::
  "sdk \<Rightarrow> voice_manager \<Rightarrow> member \<Rightarrow> channel \<Rightarrow>
     (error + unit) \<times> voice_manager \<times> effect list" where
  "monitorMember k vm member ch =
     (let user_id = member_id member;
          userName = displayName member;
          connection = getVoiceConnection k (member_guild member);
          receiveStream = map_option (\<lambda>c. receiver_subscribe k c user_id) connection
      in if (case receiveStream of None \<Rightarrow> False | Some r \<Rightarrow> readableLength r > 0)
         then (Inr (), vm, [])
         else
           (let opusDecoder = decoders_made vm;
                vm1 = vm\<lparr> decoders_made := Suc (decoders_made vm) \<rparr>;
                source = map_option stream_handle receiveStream
            in case stream_pipeline k source opusDecoder of
                 Some e \<Rightarrow> (Inl e, vm1, [NewOpusDecoder opusDecoder])
               | None \<Rightarrow>
                   (Inr (),
                    vm1\<lparr> streams := (streams vm1)(user_id \<mapsto> opusDecoder),
                         connections := (connections vm1)(user_id := connection) \<rparr>,
                    [NewOpusDecoder opusDecoder,
                     StreamPipeline source opusDecoder,
                     DecoderOn opusDecoder ''error'',
                     DecoderOn opusDecoder ''error'',
                     DecoderOn opusDecoder ''close'']
                    @ (case source of None \<Rightarrow> [] | Some r \<Rightarrow> [ReceiveStreamOn r ''close''])
                    @ [EmitUserStream user_id userName ch opusDecoder])))"

subsection \<open>The utterance pipeline of handleUserStream (lines 99 to 151)\<close>

text \<open>
  What the class imports: the hash \<^verbatim>\<open>getUuid\<close> and the two settings it reads.
\<close>

record environment =
  getUuid :: "string \<Rightarrow> string"
  DISCORD_APPLICATION_ID :: string
  DISCORD_API_TOKEN :: string

record response =
  responseMessage :: "string option"
  response_content :: "string option"
  response_message :: "string option"

text \<open>
  Truthiness of a value that is a string, \<^verbatim>\<open>null\<close> or \<^verbatim>\<open>undefined\<close>, the operator
  \<^verbatim>\<open>||\<close> on such values, and \<^verbatim>\<open>text && text.startsWith("/")\<close>.
\<close>

definition truthy :: "string option \<Rightarrow> bool" where
  "truthy v = (case v of None \<Rightarrow> False | Some s \<Rightarrow> s \<noteq> [])"

definition js_or :: "string option \<Rightarrow> string option \<Rightarrow> string option" where
  "js_or a b = (if truthy a then a else b)"

definition starts_with_slash :: "string option \<Rightarrow> bool" where
  "starts_with_slash text =
     (case text of Some (c # _) \<Rightarrow> c = CHR ''/'' | _ \<Rightarrow> False)"

text \<open>
  An async function between two of its steps. \<open>Return\<close>: it has returned and its promise
  is resolved. \<open>Throw\<close>: an error left it uncaught and its promise is rejected.
  \<open>LogError\<close> is the \<^verbatim>\<open>console.error\<close> of the catch block and \<open>Callback\<close> the call
  \<^verbatim>\<open>callback(responseStream)\<close>, which is not awaited. Every other constructor is a call
  of a collaborator that has been made and is awaited, with the arguments of the call
  and the rest of the function, which takes what the promise settles to.
  \<^verbatim>\<open>this.textToSpeech\<close> is taken as one such call.
\<close>

datatype task =
    Return
  | Throw error
  | LogError error task
  | Callback string readable task
  | AwaitTranscribe buffer "error + string option \<Rightarrow> task"
  | AwaitFetchBotName string "error + string \<Rightarrow> task"
  | AwaitEnsureUserExists string string "error + unit \<Rightarrow> task"
  | AwaitEnsureRoomExists string "error + unit \<Rightarrow> task"
  | AwaitEnsureParticipantInRoom string string "error + unit \<Rightarrow> task"
  | AwaitComposeState "string option" string string string "error + string \<Rightarrow> task"
  | AwaitHandleMessage "string option" string string string "error + response \<Rightarrow> task"
  | AwaitTextToSpeech string "error + readable option \<Rightarrow> task"

text \<open>\<^verbatim>\<open>await\<close>: a rejected promise throws, a resolved one gives its value.\<close>

definition await_value :: "error + 'a \<Rightarrow> ('a \<Rightarrow> task) \<Rightarrow> task" where
  "await_value r k = (case r of Inl e \<Rightarrow> Throw e | Inr v \<Rightarrow> k v)"

text \<open>
  \<^verbatim>\<open>try { body } catch (error) { handler }\<close>: an error that leaves the body enters the
  handler; an error of the handler itself is not caught.
\<close>

primrec try_catch :: "task \<Rightarrow> (error \<Rightarrow> task) \<Rightarrow> task" where
  "try_catch Return h = Return"
| "try_catch (Throw e) h = h e"
| "try_catch (LogError e t) h = LogError e (try_catch t h)"
| "try_catch (Callback u s t) h = Callback u s (try_catch t h)"
| "try_catch (AwaitTranscribe b k) h = AwaitTranscribe b (\<lambda>r. try_catch (k r) h)"
| "try_catch (AwaitFetchBotName a k) h = AwaitFetchBotName a (\<lambda>r. try_catch (k r) h)"
| "try_catch (AwaitEnsureUserExists a b k) h =
     AwaitEnsureUserExists a b (\<lambda>r. try_catch (k r) h)"
| "try_catch (AwaitEnsureRoomExists a k) h =
     AwaitEnsureRoomExists a (\<lambda>r. try_catch (k r) h)"
| "try_catch (AwaitEnsureParticipantInRoom a b k) h =
     AwaitEnsureParticipantInRoom a b (\<lambda>r. try_catch (k r) h)"
| "try_catch (AwaitComposeState a b c d k) h =
     AwaitComposeState a b c d (\<lambda>r. try_catch (k r) h)"
| "try_catch (AwaitHandleMessage a b c d k) h =
     AwaitHandleMessage a b c d (\<lambda>r. try_catch (k r) h)"
| "try_catch (AwaitTextToSpeech a k) h = AwaitTextToSpeech a (\<lambda>r. try_catch (k r) h)"

text \<open>The body of the try block: lines 126 to 148, then the whole of lines 100 to 148.\<close>

definition respond ::
  "string \<Rightarrow> string option \<Rightarrow> string \<Rightarrow> string \<Rightarrow> string \<Rightarrow> task" where
  "respond user_id text userIdUUID room_id state =
     AwaitHandleMessage text userIdUUID room_id state (\<lambda>r. await_value r (\<lambda>response.
       let content = js_or (js_or (responseMessage response) (response_content response))
                           (response_message response)
       in case content of
            None \<Rightarrow> Return
          | Some [] \<Rightarrow> Return
          | Some (c # cs) \<Rightarrow>
              AwaitTextToSpeech (c # cs) (\<lambda>r. await_value r (\<lambda>responseStream.
                case responseStream of
                  None \<Rightarrow> Return
                | Some stream \<Rightarrow> Callback user_id stream Return))))"

definition pipeline_body ::
  "environment \<Rightarrow> string \<Rightarrow> string \<Rightarrow> string \<Rightarrow> buffer \<Rightarrow> task" where
  "pipeline_body env user_id userName channelId inputBuffer =
     AwaitTranscribe inputBuffer (\<lambda>r. await_value r (\<lambda>text.
       let room_id = getUuid env channelId;
           userIdUUID = getUuid env user_id;
           agentId = getUuid env (DISCORD_APPLICATION_ID env)
       in
       AwaitFetchBotName (DISCORD_API_TOKEN env) (\<lambda>r. await_value r (\<lambda>botName.
       AwaitEnsureUserExists agentId botName (\<lambda>r. await_value r (\<lambda>_.
       AwaitEnsureUserExists userIdUUID userName (\<lambda>r. await_value r (\<lambda>_.
       AwaitEnsureRoomExists room_id (\<lambda>r. await_value r (\<lambda>_.
       AwaitEnsureParticipantInRoom userIdUUID room_id (\<lambda>r. await_value r (\<lambda>_.
       AwaitEnsureParticipantInRoom agentId room_id (\<lambda>r. await_value r (\<lambda>_.
       AwaitComposeState text userIdUUID room_id botName (\<lambda>r. await_value r (\<lambda>state.
         if starts_with_slash text then Return
         else respond user_id text userIdUUID room_id state
       ))))))))))))))))"

text \<open>The try block with its catch block, lines 99 to 151.\<close>

definition pipeline ::
  "environment \<Rightarrow> string \<Rightarrow> string \<Rightarrow> string \<Rightarrow> buffer \<Rightarrow> task" where
  "pipeline env user_id userName channelId inputBuffer =
     try_catch (pipeline_body env user_id userName channelId inputBuffer)
       (\<lambda>error. LogError error Return)"

subsection \<open>Running a task\<close>

text \<open>
  The collaborators: what each call settles to, \<open>Inl\<close> for a rejection.
\<close>

record world =
  w_transcribe :: "buffer \<Rightarrow> error + string option"
  w_fetchBotName :: "string \<Rightarrow> error + string"
  w_ensureUserExists :: "string \<Rightarrow> string \<Rightarrow> error + unit"
  w_ensureRoomExists :: "string \<Rightarrow> error + unit"
  w_ensureParticipantInRoom :: "string \<Rightarrow> string \<Rightarrow> error + unit"
  w_composeState :: "string option \<Rightarrow> string \<Rightarrow> string \<Rightarrow> string \<Rightarrow> error + string"
  w_handleMessage :: "string option \<Rightarrow> string \<Rightarrow> string \<Rightarrow> string \<Rightarrow> error + response"
  w_textToSpeech :: "string \<Rightarrow> error + readable option"

definition raised :: "error + 'a \<Rightarrow> effect list" where
  "raised r = (case r of Inl e \<Rightarrow> [Raised e] | Inr _ \<Rightarrow> [])"

definition unhandled :: "error + unit \<Rightarrow> effect list" where
  "unhandled r = (case r of Inl e \<Rightarrow> [UnhandledRejection e] | Inr _ \<Rightarrow> [])"

text \<open>
  A task run to its end against one world: the effects in order (each call when it is
  made, \<open>Raised\<close> when its promise rejects), the voice manager, and the error that
  rejects the promise of the task, if any.
\<close>

primrec run :: "world \<Rightarrow> task \<Rightarrow> voice_manager \<Rightarrow> effect list \<times> voice_manager \<times> error option" where
  "run w Return vm = ([], vm, None)"
| "run w (Throw e) vm = ([], vm, Some e)"
| "run w (LogError e t) vm =
     (let (es, vm1, out) = run w t vm
      in (ConsoleError ''Error processing audio stream:'' e # es, vm1, out))"
| "run w (Callback u s t) vm =
     (let (r, vm1, played) = playAudioStream vm u s;
          (es, vm2, out) = run w t vm1
      in (played @ unhandled r @ es, vm2, out))"
| "run w (AwaitTranscribe b k) vm =
     (let r = w_transcribe w b; (es, vm1, out) = run w (k r) vm
      in (Transcribe b # raised r @ es, vm1, out))"
| "run w (AwaitFetchBotName a k) vm =
     (let r = w_fetchBotName w a; (es, vm1, out) = run w (k r) vm
      in (FetchBotName a # raised r @ es, vm1, out))"
| "run w (AwaitEnsureUserExists a b k) vm =
     (let r = w_ensureUserExists w a b; (es, vm1, out) = run w (k r) vm
      in (EnsureUserExists a b # raised r @ es, vm1, out))"
| "run w (AwaitEnsureRoomExists a k) vm =
     (let r = w_ensureRoomExists w a; (es, vm1, out) = run w (k r) vm
      in (EnsureRoomExists a # raised r @ es, vm1, out))"
| "run w (AwaitEnsureParticipantInRoom a b k) vm =
     (let r = w_ensureParticipantInRoom w a b; (es, vm1, out) = run w (k r) vm
      in (EnsureParticipantInRoom a b # raised r @ es, vm1, out))"
| "run w (AwaitComposeState a b c d k) vm =
     (let r = w_composeState w a b c d; (es, vm1, out) = run w (k r) vm
      in (ComposeState a b c d # raised r @ es, vm1, out))"
| "run w (AwaitHandleMessage a b c d k) vm =
     (let r = w_handleMessage w a b c d; (es, vm1, out) = run w (k r) vm
      in (HandleMessage a b c d # raised r @ es, vm1, out))"
| "run w (AwaitTextToSpeech a k) vm =
     (let r = w_textToSpeech w a; (es, vm1, out) = run w (k r) vm
      in (TextToSpeech a # raised r @ es, vm1, out))"

subsection \<open>The event loop: chunks arriving while pipelines are in flight\<close>

text \<open>
  \<open>advance\<close> runs a task up to its next \<^verbatim>\<open>await\<close> (or its end), logging the call it
  waits on. \<open>settle\<close> hands the awaited call its answer from the world of that moment.
\<close>

primrec advance :: "task \<Rightarrow> voice_manager \<Rightarrow> effect list \<times> voice_manager \<times> task" where
  "advance Return vm = ([], vm, Return)"
| "advance (Throw e) vm = ([], vm, Throw e)"
| "advance (LogError e t) vm =
     (let (es, vm1, t1) = advance t vm
      in (ConsoleError ''Error processing audio stream:'' e # es, vm1, t1))"
| "advance (Callback u s t) vm =
     (let (r, vm1, played) = playAudioStream vm u s;
          (es, vm2, t1) = advance t vm1
      in (played @ unhandled r @ es, vm2, t1))"
| "advance (AwaitTranscribe b k) vm = ([Transcribe b], vm, AwaitTranscribe b k)"
| "advance (AwaitFetchBotName a k) vm = ([FetchBotName a], vm, AwaitFetchBotName a k)"
| "advance (AwaitEnsureUserExists a b k) vm =
     ([EnsureUserExists a b], vm, AwaitEnsureUserExists a b k)"
| "advance (AwaitEnsureRoomExists a k) vm =
     ([EnsureRoomExists a], vm, AwaitEnsureRoomExists a k)"
| "advance (AwaitEnsureParticipantInRoom a b k) vm =
     ([EnsureParticipantInRoom a b], vm, AwaitEnsureParticipantInRoom a b k)"
| "advance (AwaitComposeState a b c d k) vm =
     ([ComposeState a b c d], vm, AwaitComposeState a b c d k)"
| "advance (AwaitHandleMessage a b c d k) vm =
     ([HandleMessage a b c d], vm, AwaitHandleMessage a b c d k)"
| "advance (AwaitTextToSpeech a k) vm = ([TextToSpeech a], vm, AwaitTextToSpeech a k)"

fun settle :: "world \<Rightarrow> task \<Rightarrow> effect list \<times> task" where
  "settle w (AwaitTranscribe b k) = (let r = w_transcribe w b in (raised r, k r))"
| "settle w (AwaitFetchBotName a k) = (let r = w_fetchBotName w a in (raised r, k r))"
| "settle w (AwaitEnsureUserExists a b k) =
     (let r = w_ensureUserExists w a b in (raised r, k r))"
| "settle w (AwaitEnsureRoomExists a k) = (let r = w_ensureRoomExists w a in (raised r, k r))"
| "settle w (AwaitEnsureParticipantInRoom a b k) =
     (let r = w_ensureParticipantInRoom w a b in (raised r, k r))"
| "settle w (AwaitComposeState a b c d k) =
     (let r = w_composeState w a b c d in (raised r, k r))"
| "settle w (AwaitHandleMessage a b c d k) =
     (let r = w_handleMessage w a b c d in (raised r, k r))"
| "settle w (AwaitTextToSpeech a k) = (let r = w_textToSpeech w a in (raised r, k r))"
| "settle w t = ([], t)"

definition resume :: "world \<Rightarrow> task \<Rightarrow> voice_manager \<Rightarrow> effect list \<times> voice_manager \<times> task" where
  "resume w t vm =
     (let (es1, t1) = settle w t; (es2, vm1, t2) = advance t1 vm
      in (es1 @ es2, vm1, t2))"

text \<open>
  One user stream under the event loop: the accumulator of its callback, the pipeline
  runs that have started and wait on a call, the voice manager, and the effects so far.
\<close>

record system =
  acc :: accumulator
  in_flight :: "task list"
  manager :: voice_manager
  effects :: "effect list"

text \<open>
  An event is a chunk delivered to the callback at a time, or the settling of the call
  that the \<open>i\<close>-th pipeline run waits on.
\<close>

datatype event = Chunk int buffer | Settle nat world

definition step ::
  "environment \<Rightarrow> string \<Rightarrow> string \<Rightarrow> string \<Rightarrow> system \<Rightarrow> event \<Rightarrow> system" where
  "step env user_id userName channelId s ev =
     (case ev of
        Chunk now buffer \<Rightarrow>
          (let (a1, out) = monitor_callback (acc s) now buffer
           in case out of
                None \<Rightarrow> s\<lparr> acc := a1 \<rparr>
              | Some inputBuffer \<Rightarrow>
                  (let (es, vm1, t) =
                         advance (pipeline env user_id userName channelId inputBuffer) (manager s)
                   in s\<lparr> acc := a1, in_flight := in_flight s @ [t],
                          manager := vm1, effects := effects s @ es \<rparr>))
      | Settle i w \<Rightarrow>
          (if i < length (in_flight s)
           then (let (es, vm1, t) = resume w (in_flight s ! i) (manager s)
                 in s\<lparr> in_flight := (in_flight s)[i := t],
                        manager := vm1, effects := effects s @ es \<rparr>)
           else s))"

definition start :: "int \<Rightarrow> voice_manager \<Rightarrow> system" where
  "start now vm = \<lparr> acc = initial now, in_flight = [], manager = vm, effects = [] \<rparr>"

definition chunks_of :: "event list \<Rightarrow> buffer list" where
  "chunks_of evs = concat (map (\<lambda>ev. case ev of Chunk now b \<Rightarrow> [b] | Settle i w \<Rightarrow> []) evs)"

definition utterances_of :: "effect list \<Rightarrow> buffer list" where
  "utterances_of es = concat (map (\<lambda>ef. case ef of Transcribe b \<Rightarrow> [b] | _ \<Rightarrow> []) es)"

text \<open>A run of the event loop, and the chunk that an event delivers.\<close>

definition exec ::
  "environment \<Rightarrow> string \<Rightarrow> string \<Rightarrow> string \<Rightarrow> system \<Rightarrow> event list \<Rightarrow> system" where
  "exec env user_id userName channelId s evs = foldl (step env user_id userName channelId) s evs"

definition chunk_of :: "event \<Rightarrow> buffer" where
  "chunk_of ev = (case ev of Chunk now b \<Rightarrow> b | Settle i w \<Rightarrow> [])"

subsection \<open>Reading traces\<close>

text \<open>
  \<open>after_raise\<close> finds the first rejection in a trace and what follows it;
  \<open>stops_at_raise\<close> says that a run ends at its first rejection, with that error.
  \<open>response_effect\<close> marks the effects of message dispatch, speech synthesis and
  playback.
\<close>

fun after_raise :: "effect list \<Rightarrow> (error \<times> effect list) option" where
  "after_raise [] = None"
| "after_raise (Raised e # es) = Some (e, es)"
| "after_raise (ef # es) = after_raise es"

definition stops_at_raise :: "effect list \<times> voice_manager \<times> error option \<Rightarrow> bool" where
  "stops_at_raise res =
     (case res of (es, vm, out) \<Rightarrow>
        (case after_raise es of None \<Rightarrow> out = None | Some (e, post) \<Rightarrow> post = [] \<and> out = Some e))"




subsection \<open>Invariants\<close>

text \<open>
  The invariant of the accumulator: \<^verbatim>\<open>totalLength\<close> is the number of bytes in
  \<^verbatim>\<open>buffers\<close>.
\<close>

definition consistent :: "accumulator \<Rightarrow> bool" where
  "consistent a = (totalLength a = length (concat (buffers a)))"

text \<open>
  \<open>no_transcribe\<close>: the task never calls the transcription service. \<open>waiting\<close>: it
  never calls it once the call it waits on has settled. \<open>sound\<close>: the accumulator is
  consistent and every pipeline run in flight is \<open>waiting\<close>.
\<close>

primrec no_transcribe :: "task \<Rightarrow> bool" where
  "no_transcribe Return = True"
| "no_transcribe (Throw e) = True"
| "no_transcribe (LogError e t) = no_transcribe t"
| "no_transcribe (Callback u s t) = no_transcribe t"
| "no_transcribe (AwaitTranscribe b k) = False"
| "no_transcribe (AwaitFetchBotName a k) = (\<forall>r. no_transcribe (k r))"
| "no_transcribe (AwaitEnsureUserExists a b k) = (\<forall>r. no_transcribe (k r))"
| "no_transcribe (AwaitEnsureRoomExists a k) = (\<forall>r. no_transcribe (k r))"
| "no_transcribe (AwaitEnsureParticipantInRoom a b k) = (\<forall>r. no_transcribe (k r))"
| "no_transcribe (AwaitComposeState a b c d k) = (\<forall>r. no_transcribe (k r))"
| "no_transcribe (AwaitHandleMessage a b c d k) = (\<forall>r. no_transcribe (k r))"
| "no_transcribe (AwaitTextToSpeech a k) = (\<forall>r. no_transcribe (k r))"

definition waiting :: "task \<Rightarrow> bool" where
  "waiting t = (\<forall>w. no_transcribe (snd (settle w t)))"

definition sound :: "system \<Rightarrow> bool" where
  "sound s = (consistent (acc s) \<and> (\<forall>t\<in>set (in_flight s). waiting t))"

subsection \<open>Concrete inputs\<close>

text \<open>
  A guild with two people and two bots, its channels, an SDK whose receive stream for
  any user holds \<open>unread\<close> bytes, and a voice manager that has registered nothing.
\<close>

definition alice :: member where
  "alice = \<lparr> member_id = ''u1'', displayName = ''Alice'', bot = False, member_guild = ''g'' \<rparr>"

definition bob :: member where
  "bob = \<lparr> member_id = ''u2'', displayName = ''Bob'', bot = False, member_guild = ''g'' \<rparr>"

definition jukebox :: member where
  "jukebox = \<lparr> member_id = ''b1'', displayName = ''Jukebox'', bot = True, member_guild = ''g'' \<rparr>"

definition recorder :: member where
  "recorder = \<lparr> member_id = ''b2'', displayName = ''Recorder'', bot = True, member_guild = ''g'' \<rparr>"

definition general :: channel where
  "general = \<lparr> channel_id = ''c0'', channel_type = GuildText, members = [alice, bob, jukebox] \<rparr>"

definition quiet :: channel where
  "quiet = \<lparr> channel_id = ''c1'', channel_type = GuildVoice, members = [] \<rparr>"

definition lobby :: channel where
  "lobby = \<lparr> channel_id = ''c2'', channel_type = GuildVoice, members = [alice] \<rparr>"

definition lounge :: channel where
  "lounge = \<lparr> channel_id = ''c3'', channel_type = GuildVoice, members = [bob, jukebox] \<rparr>"

definition arcade :: channel where
  "arcade = \<lparr> channel_id = ''c4'', channel_type = GuildVoice, members = [jukebox, recorder] \<rparr>"

definition sdk0 :: "nat \<Rightarrow> sdk" where
  "sdk0 unread =
     \<lparr> getVoiceConnection = [''g'' \<mapsto> 7],
       receiver_subscribe = (\<lambda>c u. \<lparr> stream_handle = 3, readableLength = unread \<rparr>),
       stream_pipeline = (\<lambda>source d. None) \<rparr>"

definition vm0 :: voice_manager where
  "vm0 = \<lparr> streams = Map.empty, connections = Map.empty, players_made = 0, decoders_made = 0 \<rparr>"

text \<open>
  An environment, a world in which every collaborator succeeds (the transcription being
  \<open>text\<close>), the same world with a failing \<^verbatim>\<open>ensureRoomExists\<close>, and a run of events.
\<close>

definition env0 :: environment where
  "env0 = \<lparr> getUuid = (\<lambda>s. ''uuid-'' @ s), DISCORD_APPLICATION_ID = ''app'',
            DISCORD_API_TOKEN = ''token'' \<rparr>"

definition world0 :: "string option \<Rightarrow> world" where
  "world0 text =
     \<lparr> w_transcribe = (\<lambda>b. Inr text),
       w_fetchBotName = (\<lambda>token. Inr ''Lily''),
       w_ensureUserExists = (\<lambda>a b. Inr ()),
       w_ensureRoomExists = (\<lambda>a. Inr ()),
       w_ensureParticipantInRoom = (\<lambda>a b. Inr ()),
       w_composeState = (\<lambda>a b c d. Inr ''state''),
       w_handleMessage = (\<lambda>a b c d.
         Inr \<lparr> responseMessage = None, response_content = Some ''hi'',
               response_message = None \<rparr>),
       w_textToSpeech = (\<lambda>s. Inr (Some 9)) \<rparr>"

definition world_down :: "string option \<Rightarrow> world" where
  "world_down text = (world0 text)\<lparr> w_ensureRoomExists := (\<lambda>a. Inl (Thrown ''down'')) \<rparr>"

definition evs0 :: "event list" where
  "evs0 = [Chunk 600 [1, 2], Chunk 650 [3], Settle 0 (world0 (Some ''hi'')),
           Chunk 700 [4], Settle 0 (world0 (Some ''hi'')), Chunk 1300 [5]]"

section \<open>The buffering callback: flushes\<close>

lemma consistent_initial: "consistent (initial now)"
  by (simp add: consistent_def initial_def)

lemma monitor_callback_flush:
  assumes "consistent a"
      and "currentTime - lastChunkTime a > 500 \<or> totalLength a + length buffer \<ge> 1000000"
  shows "monitor_callback a currentTime buffer =
           (\<lparr> buffers = [], totalLength = 0, lastChunkTime = currentTime \<rparr>,
            Some (concat (buffers a) @ buffer))"
  using assms
  by (auto simp: monitor_callback_def consistent_def maxSilenceTime_def Let_def Buffer_concat_def)

lemma monitor_callback_keep:
  assumes "currentTime - lastChunkTime a \<le> 500" and "totalLength a + length buffer < 1000000"
  shows "monitor_callback a currentTime buffer =
           (\<lparr> buffers = buffers a @ [buffer], totalLength = totalLength a + length buffer,
              lastChunkTime = currentTime \<rparr>, None)"
  using assms
  by (auto simp: monitor_callback_def maxSilenceTime_def Let_def)

lemma monitor_callback_consistent:
  "consistent a \<Longrightarrow> consistent (fst (monitor_callback a currentTime buffer))"
  by (auto simp: monitor_callback_def consistent_def Let_def)

lemma monitor_callback_buffers:
  "buffers (fst (monitor_callback a now buffer)) =
     (case snd (monitor_callback a now buffer) of None \<Rightarrow> buffers a @ [buffer] | Some _ \<Rightarrow> [])"
  by (auto simp: monitor_callback_def Let_def)

lemma feed_Cons:
  "feed a ((now, b) # rest) =
     (fst (feed (fst (monitor_callback a now b)) rest),
      snd (monitor_callback a now b) # snd (feed (fst (monitor_callback a now b)) rest))"
  by (simp split: prod.splits)

declare feed.simps(2) [simp del]

lemma feed_consistent: "consistent a \<Longrightarrow> consistent (fst (feed a evs))"
proof (induction evs arbitrary: a)
  case Nil
  then show ?case by simp
next
  case (Cons ev evs)
  obtain now buffer where ev: "ev = (now, buffer)" by (cases ev)
  show ?case
    using Cons.IH [OF monitor_callback_consistent [OF Cons.prems, of now buffer]]
    by (simp add: ev feed_Cons)
qed

lemma feed_append:
  "feed a (xs @ ys) =
     (fst (feed (fst (feed a xs)) ys), snd (feed a xs) @ snd (feed (fst (feed a xs)) ys))"
proof (induction xs arbitrary: a)
  case Nil
  then show ?case by simp
next
  case (Cons ev xs)
  obtain now buffer where ev: "ev = (now, buffer)" by (cases ev)
  show ?case by (simp add: ev feed_Cons Cons.IH)
qed

lemma feed_length: "length (snd (feed a evs)) = length evs"
proof (induction evs arbitrary: a)
  case Nil
  then show ?case by simp
next
  case (Cons ev evs)
  obtain now buffer where ev: "ev = (now, buffer)" by (cases ev)
  show ?case by (simp add: ev feed_Cons Cons.IH)
qed

lemma feed_pending:
  "buffers (fst (feed a evs)) = since_flush (snd (feed a evs)) (map snd evs) (buffers a)"
proof (induction evs arbitrary: a)
  case Nil
  then show ?case by simp
next
  case (Cons ev evs)
  obtain now buffer where ev: "ev = (now, buffer)" by (cases ev)
  show ?case
    by (simp add: ev feed_Cons Cons.IH monitor_callback_buffers)
qed

lemma monitor_callback_out:
  assumes "consistent a" and "snd (monitor_callback a now b) = Some u"
  shows "u = concat (buffers a) @ b"
proof (cases "now - lastChunkTime a > 500 \<or> totalLength a + length b \<ge> 1000000")
  case True
  from monitor_callback_flush [OF assms(1) True] assms(2) show ?thesis by simp
next
  case False
  then have "now - lastChunkTime a \<le> 500" and "totalLength a + length b < 1000000" by auto
  from monitor_callback_keep [OF this] assms(2) show ?thesis by simp
qed

text \<open>
  Claim C1. After any run of the callback from the start of the monitor, a chunk that
  brings the bytes delivered since the previous flush to 1,000,000 or more is flushed at
  that very chunk, and whatever triggers a flush, the flushed buffer is the
  concatenation, in arrival order, of the chunks delivered since the previous flush
  with the chunk that triggers it.
\<close>

theorem flush_at_threshold:
  assumes "feed (initial t0) evs = (a, outs)"
      and "pending = since_flush outs (map snd evs) []"
  shows "(length (concat pending) + length buffer \<ge> 1000000 \<longrightarrow>
            feed (initial t0) (evs @ [(now, buffer)]) =
              (\<lparr> buffers = [], totalLength = 0, lastChunkTime = now \<rparr>,
               outs @ [Some (concat pending @ buffer)]))
       \<and> (\<forall>u. snd (monitor_callback a now buffer) = Some u \<longrightarrow> u = concat pending @ buffer)"
proof -
  have c: "consistent a" using feed_consistent [OF consistent_initial, of t0 evs] assms(1) by simp
  have p: "buffers a = pending"
    using feed_pending [of "initial t0" evs] assms by (simp add: initial_def)
  have t: "totalLength a = length (concat pending)" using c p by (simp add: consistent_def)
  have one: "length (concat pending) + length buffer \<ge> 1000000 \<Longrightarrow>
      monitor_callback a now buffer =
        (\<lparr> buffers = [], totalLength = 0, lastChunkTime = now \<rparr>, Some (concat pending @ buffer))"
    using monitor_callback_flush [OF c, of now buffer] t p by simp
  have two: "\<forall>u. snd (monitor_callback a now buffer) = Some u \<longrightarrow> u = concat pending @ buffer"
    using monitor_callback_out [OF c] p by blast
  have three: "feed (initial t0) (evs @ [(now, buffer)]) =
      (fst (monitor_callback a now buffer), outs @ [snd (monitor_callback a now buffer)])"
    by (simp add: feed_append assms(1) feed_Cons)
  show ?thesis
  proof (intro conjI impI)
    assume "length (concat pending) + length buffer \<ge> 1000000"
    from one [OF this] three
    show "feed (initial t0) (evs @ [(now, buffer)]) =
              (\<lparr> buffers = [], totalLength = 0, lastChunkTime = now \<rparr>,
               outs @ [Some (concat pending @ buffer)])" by simp
  next
    show "\<forall>u. snd (monitor_callback a now buffer) = Some u \<longrightarrow> u = concat pending @ buffer"
      by (rule two)
  qed
qed

theorem flush_at_threshold_witness:
  "feed (initial 0) ([(10, replicate 600000 1)] @ [(20, replicate 400000 2)]) =
     (\<lparr> buffers = [], totalLength = 0, lastChunkTime = 20 \<rparr>,
      [None] @ [Some (concat [replicate 600000 1] @ replicate 400000 2)])"
proof -
  have f: "feed (initial 0) [(10, replicate 600000 1)] =
      (\<lparr> buffers = [replicate 600000 1], totalLength = 600000, lastChunkTime = 10 \<rparr>, [None])"
    by (simp add: feed_Cons monitor_callback_def initial_def maxSilenceTime_def Let_def)
  have p: "[replicate 600000 (1::byte)] =
             since_flush [None] (map snd [(10::int, replicate 600000 (1::byte))]) []"
    by simp
  have l: "length (concat [replicate 600000 (1::byte)]) + length (replicate 400000 (2::byte)) \<ge> 1000000"
    by simp
  from flush_at_threshold [OF f p, of "replicate 400000 2" 20] l
  show ?thesis by blast
qed

lemma feed_lastChunkTime:
  "lastChunkTime (fst (feed a evs)) = last (lastChunkTime a # map fst evs)"
proof (induction evs arbitrary: a)
  case Nil
  then show ?case by simp
next
  case (Cons ev evs)
  obtain now buffer where ev: "ev = (now, buffer)" by (cases ev)
  have "lastChunkTime (fst (monitor_callback a now buffer)) = now"
    by (simp add: monitor_callback_def Let_def)
  then show ?case by (simp add: ev feed_Cons Cons.IH)
qed

lemma feed_no_flush:
  assumes "gaps_within (lastChunkTime a) evs"
      and "totalLength a + length (concat (map snd evs)) < 1000000"
  shows "snd (feed a evs) = replicate (length evs) None"
  using assms
proof (induction evs arbitrary: a)
  case Nil
  then show ?case by simp
next
  case (Cons ev evs)
  obtain now buffer where ev: "ev = (now, buffer)" by (cases ev)
  have g: "now - lastChunkTime a \<le> 500" and g': "gaps_within now evs"
    using Cons.prems(1) by (simp_all add: ev)
  have l: "totalLength a + length buffer < 1000000"
    using Cons.prems(2) by (simp add: ev)
  note k = monitor_callback_keep [OF g l]
  have "snd (feed (fst (monitor_callback a now buffer)) evs) = replicate (length evs) None"
    using g' Cons.prems(2) by (intro Cons.IH) (simp_all add: k ev)
  then show ?case by (simp add: ev feed_Cons k)
qed

text \<open>
  Claim C2, amended. A run of chunks from the start of the monitor in which the first
  chunk comes at most 500 ms after the start of the monitor, every later chunk at most
  500 ms after the chunk before it, and whose sizes add up to less than 1,000,000 bytes
  flushes nothing; and after any run, a chunk at which a flush happens comes more than
  500 ms after the chunk before it (after the start of the monitor, when it is the
  first) or makes a flushed buffer of at least 1,000,000 bytes.
\<close>

theorem no_flush_within_limits:
  "(gaps_within t0 evs \<and> length (concat (map snd evs)) < 1000000 \<longrightarrow>
      snd (feed (initial t0) evs) = replicate (length evs) None)
   \<and> (feed (initial t0) evs = (a, outs) \<and> snd (monitor_callback a now buffer) = Some u \<longrightarrow>
        now - last (t0 # map fst evs) > 500 \<or> length u \<ge> 1000000)"
proof (intro conjI impI)
  assume "gaps_within t0 evs \<and> length (concat (map snd evs)) < 1000000"
  then show "snd (feed (initial t0) evs) = replicate (length evs) None"
    by (intro feed_no_flush) (simp_all add: initial_def)
next
  assume h: "feed (initial t0) evs = (a, outs) \<and> snd (monitor_callback a now buffer) = Some u"
  have c: "consistent a" using feed_consistent [OF consistent_initial, of t0 evs] h by simp
  have t: "lastChunkTime a = last (t0 # map fst evs)"
    using feed_lastChunkTime [of "initial t0" evs] h by (simp add: initial_def)
  have u: "u = concat (buffers a) @ buffer" using monitor_callback_out [OF c] h by blast
  show "now - last (t0 # map fst evs) > 500 \<or> length u \<ge> 1000000"
  proof (rule ccontr)
    assume "\<not> ?thesis"
    then have "now - lastChunkTime a \<le> 500" and "totalLength a + length buffer < 1000000"
      using t u c by (simp_all add: consistent_def)
    from monitor_callback_keep [OF this] h show False by simp
  qed
qed

theorem no_flush_within_limits_witness:
  "snd (feed (initial 0) [(100, [1, 2, 3]), (400, [4])]) = replicate 2 None
   \<and> (1000 - last (0 # map fst [(100 :: int, [1, 2, 3 :: byte]), (400, [4])]) > (500 :: int)
        \<or> length [1, 2, 3, 4, 5 :: byte] \<ge> 1000000)"
proof -
  let ?evs = "[(100 :: int, [1, 2, 3 :: byte]), (400, [4])]"
  let ?a = "\<lparr> buffers = [[1, 2, 3 :: byte], [4]], totalLength = 4, lastChunkTime = 400 \<rparr>"
  have g: "gaps_within 0 ?evs \<and> length (concat (map snd ?evs)) < 1000000" by simp
  have f: "feed (initial 0) ?evs = (?a, [None, None])"
    by (simp add: feed_Cons monitor_callback_def initial_def maxSilenceTime_def Let_def)
  have m: "snd (monitor_callback ?a 1000 [5]) = Some [1, 2, 3, 4, 5]"
    by (simp add: monitor_callback_def maxSilenceTime_def Let_def Buffer_concat_def)
  from no_flush_within_limits [of 0 ?evs ?a "[None, None]" 1000 "[5]" "[1, 2, 3, 4, 5]"] g f m
  show ?thesis by (simp add: numeral_2_eq_2)
qed

text \<open>
  Claim C2 as stated fails: two chunks of one byte each, 100 ms apart, are within the
  limits of the claim, and yet the first is flushed at once when it arrives 501 ms
  after the start of the monitor, the silence being counted from that start.
\<close>

theorem late_first_chunk_counterexample:
  "inter_arrival_within [(501, [1]), (601, [2])]
   \<and> length (concat (map snd [(501 :: int, [1 :: byte]), (601, [2])])) < 1000000
   \<and> snd (feed (initial 0) [(501, [1]), (601, [2])]) = [Some [1], None]"
  by (simp add: feed_Cons monitor_callback_def initial_def maxSilenceTime_def
        Buffer_concat_def Let_def)

text \<open>
  Claim C3, amended. Chunks of 300000, 300000, 300000 and 150000 bytes arriving 50 ms
  apart (the first at most 500 ms after the start of the monitor) add up to 1,050,000
  bytes: nothing is flushed at the first three, and at the fourth the callback flushes
  one utterance, the concatenation of the four, because the total has reached 1,000,000
  bytes, its gap of 50 ms being within the silence limit.
\<close>

theorem four_chunks_flush_by_size:
  assumes "length A = 300000" and "length B = 300000" and "length C = 300000"
      and "length D = 150000" and "tA - t0 \<le> 500"
  shows "feed (initial t0) [(tA, A), (tA + 50, B), (tA + 100, C)] =
           (\<lparr> buffers = [A, B, C], totalLength = 900000, lastChunkTime = tA + 100 \<rparr>,
            [None, None, None])
       \<and> feed (initial t0) [(tA, A), (tA + 50, B), (tA + 100, C), (tA + 150, D)] =
           (\<lparr> buffers = [], totalLength = 0, lastChunkTime = tA + 150 \<rparr>,
            [None, None, None, Some (A @ B @ C @ D)])
       \<and> length (A @ B @ C @ D) = 1050000
       \<and> (tA + 150) - (tA + 100) \<le> maxSilenceTime"
proof -
  let ?a1 = "\<lparr> buffers = [A], totalLength = 300000, lastChunkTime = tA \<rparr>"
  let ?a2 = "\<lparr> buffers = [A, B], totalLength = 600000, lastChunkTime = tA + 50 \<rparr>"
  let ?a3 = "\<lparr> buffers = [A, B, C], totalLength = 900000, lastChunkTime = tA + 100 \<rparr>"
  have s1: "monitor_callback (initial t0) tA A = (?a1, None)"
    using monitor_callback_keep [of tA "initial t0" A] assms by (simp add: initial_def)
  have s2: "monitor_callback ?a1 (tA + 50) B = (?a2, None)"
    using monitor_callback_keep [of "tA + 50" ?a1 B] assms by simp
  have s3: "monitor_callback ?a2 (tA + 100) C = (?a3, None)"
    using monitor_callback_keep [of "tA + 100" ?a2 C] assms by simp
  have c3: "consistent ?a3" using assms by (simp add: consistent_def)
  have s4: "monitor_callback ?a3 (tA + 150) D =
      (\<lparr> buffers = [], totalLength = 0, lastChunkTime = tA + 150 \<rparr>, Some (A @ B @ C @ D))"
    using monitor_callback_flush [OF c3, of "tA + 150" D] assms by simp
  show ?thesis using assms by (simp add: feed_Cons s1 s2 s3 s4 maxSilenceTime_def)
qed

theorem four_chunks_flush_by_size_witness:
  "feed (initial 0)
     [(50, replicate 300000 1), (100, replicate 300000 2), (150, replicate 300000 3)] =
     (\<lparr> buffers = [replicate 300000 1, replicate 300000 2, replicate 300000 3],
        totalLength = 900000, lastChunkTime = 150 \<rparr>, [None, None, None])
   \<and> feed (initial 0)
     [(50, replicate 300000 1), (100, replicate 300000 2), (150, replicate 300000 3),
      (200, replicate 150000 4)] =
     (\<lparr> buffers = [], totalLength = 0, lastChunkTime = 200 \<rparr>,
      [None, None, None,
       Some (replicate 300000 1 @ replicate 300000 2 @ replicate 300000 3 @ replicate 150000 4)])"
  using four_chunks_flush_by_size
    [of "replicate 300000 1" "replicate 300000 2" "replicate 300000 3" "replicate 150000 4" 50 0]
  by simp

text \<open>
  Claim C3 as stated fails at explicit chunks: the one flush is at the fourth chunk,
  the flushed buffer has not 950000 bytes, and the gap before that chunk is not a
  silence gap.
\<close>

theorem four_chunks_counterexample:
  "snd (feed (initial 0)
     [(50, replicate 300000 1), (100, replicate 300000 2), (150, replicate 300000 3),
      (200, replicate 150000 4)]) =
     [None, None, None,
      Some (replicate 300000 1 @ replicate 300000 2 @ replicate 300000 3 @ replicate 150000 4)]
   \<and> length (replicate 300000 (1 :: byte) @ replicate 300000 2 @ replicate 300000 3
              @ replicate 150000 4) \<noteq> 950000
   \<and> \<not> (200 - 150 > maxSilenceTime)"
proof -
  let ?a1 = "\<lparr> buffers = [replicate 300000 (1::byte)], totalLength = 300000, lastChunkTime = 50 \<rparr>"
  let ?a2 = "\<lparr> buffers = [replicate 300000 (1::byte), replicate 300000 2],
               totalLength = 600000, lastChunkTime = 100 \<rparr>"
  let ?a3 = "\<lparr> buffers = [replicate 300000 (1::byte), replicate 300000 2, replicate 300000 3],
               totalLength = 900000, lastChunkTime = 150 \<rparr>"
  have s1: "monitor_callback (initial 0) 50 (replicate 300000 1) = (?a1, None)"
    by (simp add: monitor_callback_def initial_def maxSilenceTime_def Let_def)
  have s2: "monitor_callback ?a1 100 (replicate 300000 2) = (?a2, None)"
    by (simp add: monitor_callback_def maxSilenceTime_def Let_def)
  have s3: "monitor_callback ?a2 150 (replicate 300000 3) = (?a3, None)"
    by (simp add: monitor_callback_def maxSilenceTime_def Let_def)
  have s4: "monitor_callback ?a3 200 (replicate 150000 4) =
      (\<lparr> buffers = [], totalLength = 0, lastChunkTime = 200 \<rparr>,
       Some (replicate 300000 1 @ replicate 300000 2 @ replicate 300000 3 @ replicate 150000 4))"
    by (simp add: monitor_callback_def maxSilenceTime_def Let_def Buffer_concat_def)
  show ?thesis by (simp add: feed_Cons s1 s2 s3 s4 maxSilenceTime_def)
qed

section \<open>playAudioStream\<close>

text \<open>
  Claim C8. \<^verbatim>\<open>playAudioStream\<close> never rejects. For a user with no entry in
  \<^verbatim>\<open>connections\<close> it leaves the voice manager as it is and its only effect is one
  \<^verbatim>\<open>console.log\<close>: no player is made. For a user with an entry it makes a player
  with a handle that no earlier player has, subscribes the connection to it and plays
  the stream on it.
\<close>

theorem playAudioStream_registry:
  "fst (playAudioStream vm user_id audioStream) = Inr ()
   \<and> (connections vm user_id = None \<longrightarrow>
        playAudioStream vm user_id audioStream =
          (Inr (), vm, [ConsoleLog (''No connection for user '' @ user_id)]))
   \<and> (\<forall>c. connections vm user_id = Some c \<longrightarrow>
        playAudioStream vm user_id audioStream =
          (Inr (), vm\<lparr> players_made := Suc (players_made vm) \<rparr>,
           [CreateAudioPlayer (players_made vm),
            ConnectionSubscribe c (players_made vm),
            CreateAudioResource audioStream,
            PlayerPlay (players_made vm) audioStream,
            PlayerOn (players_made vm) ''error'',
            PlayerOn (players_made vm) ''stateChange'']))"
  by (cases "connections vm user_id")
     (simp_all add: playAudioStream_def connection_subscribe_def Let_def)

theorem playAudioStream_registry_witness:
  "playAudioStream \<lparr> streams = Map.empty, connections = Map.empty,
                     players_made = 0, decoders_made = 0 \<rparr> ''u1'' 5 =
     (Inr (), \<lparr> streams = Map.empty, connections = Map.empty,
                players_made = 0, decoders_made = 0 \<rparr>,
      [ConsoleLog ''No connection for user u1''])
   \<and> playAudioStream \<lparr> streams = [''u1'' \<mapsto> 0], connections = [''u1'' \<mapsto> 7],
                       players_made = 2, decoders_made = 1 \<rparr> ''u1'' 5 =
     (Inr (), \<lparr> streams = [''u1'' \<mapsto> 0], connections = [''u1'' \<mapsto> 7],
                players_made = 3, decoders_made = 1 \<rparr>,
      [CreateAudioPlayer 2, ConnectionSubscribe 7 2, CreateAudioResource 5,
       PlayerPlay 2 5, PlayerOn 2 ''error'', PlayerOn 2 ''stateChange''])"
  using playAudioStream_registry
          [of "\<lparr> streams = Map.empty, connections = Map.empty,
                 players_made = 0, decoders_made = 0 \<rparr>" "''u1''" 5]
        playAudioStream_registry
          [of "\<lparr> streams = [''u1'' \<mapsto> 0], connections = [''u1'' \<mapsto> 7],
                 players_made = 2, decoders_made = 1 \<rparr>" "''u1''" 5]
  by simp

section \<open>scanGuild\<close>

lemma scan_loop_Some:
  assumes "scan_loop (Some ch0) chs = Some c"
  shows "(c = ch0 \<and> (\<forall>x\<in>set chs. length (members x) \<le> length (members ch0)))
       \<or> (\<exists>pre post. chs = pre @ c # post
             \<and> length (members ch0) < length (members c)
             \<and> (\<forall>x\<in>set pre. length (members x) < length (members c))
             \<and> (\<forall>x\<in>set post. length (members x) \<le> length (members c)))"
  using assms
proof (induction chs arbitrary: ch0)
  case Nil
  then show ?case by simp
next
  case (Cons vc rest)
  show ?case
  proof (cases "length (members vc) > length (members ch0)")
    case True
    then have "members vc \<noteq> []" by auto
    then have r: "scan_loop (Some vc) rest = Some c" using True Cons.prems by simp
    from Cons.IH [OF r] show ?thesis
    proof
      assume a: "c = vc \<and> (\<forall>x\<in>set rest. length (members x) \<le> length (members vc))"
      show ?thesis
        by (rule disjI2, rule exI [of _ "[]"], rule exI [of _ rest]) (use a True in simp)
    next
      assume "\<exists>pre post. rest = pre @ c # post
             \<and> length (members vc) < length (members c)
             \<and> (\<forall>x\<in>set pre. length (members x) < length (members c))
             \<and> (\<forall>x\<in>set post. length (members x) \<le> length (members c))"
      then obtain pre post where p: "rest = pre @ c # post"
        "length (members vc) < length (members c)"
        "\<forall>x\<in>set pre. length (members x) < length (members c)"
        "\<forall>x\<in>set post. length (members x) \<le> length (members c)" by blast
      show ?thesis
        by (rule disjI2, rule exI [of _ "vc # pre"], rule exI [of _ post]) (use p True in simp)
    qed
  next
    case False
    then have r: "scan_loop (Some ch0) rest = Some c" using Cons.prems by simp
    from Cons.IH [OF r] show ?thesis
    proof
      assume "c = ch0 \<and> (\<forall>x\<in>set rest. length (members x) \<le> length (members ch0))"
      then show ?thesis using False by simp
    next
      assume "\<exists>pre post. rest = pre @ c # post
             \<and> length (members ch0) < length (members c)
             \<and> (\<forall>x\<in>set pre. length (members x) < length (members c))
             \<and> (\<forall>x\<in>set post. length (members x) \<le> length (members c))"
      then obtain pre post where p: "rest = pre @ c # post"
        "length (members ch0) < length (members c)"
        "\<forall>x\<in>set pre. length (members x) < length (members c)"
        "\<forall>x\<in>set post. length (members x) \<le> length (members c)" by blast
      show ?thesis
        by (rule disjI2, rule exI [of _ "vc # pre"], rule exI [of _ post]) (use p False in simp)
    qed
  qed
qed

lemma scan_loop_Some_result: "\<exists>c. scan_loop (Some ch0) chs = Some c"
  by (induction chs arbitrary: ch0) simp_all

lemma scan_loop_None:
  "(scan_loop None chs = None) = (\<forall>x\<in>set chs. members x = [])"
proof (induction chs)
  case Nil
  then show ?case by simp
next
  case (Cons vc rest)
  show ?case
  proof (cases "members vc = []")
    case True
    then show ?thesis using Cons.IH by simp
  next
    case False
    obtain c where "scan_loop (Some vc) rest = Some c"
      using scan_loop_Some_result [of vc rest] by blast
    then show ?thesis using False by simp
  qed
qed


lemma scan_loop_first_largest:
  assumes "scan_loop None chs = Some c"
  shows "\<exists>pre post. chs = pre @ c # post \<and> members c \<noteq> []
           \<and> (\<forall>x\<in>set pre. length (members x) < length (members c))
           \<and> (\<forall>x\<in>set post. length (members x) \<le> length (members c))"
  using assms
proof (induction chs)
  case Nil
  then show ?case by simp
next
  case (Cons vc rest)
  show ?case
  proof (cases "members vc = []")
    case True
    then have "scan_loop None rest = Some c" using Cons.prems by simp
    from Cons.IH [OF this] obtain pre post where p: "rest = pre @ c # post" "members c \<noteq> []"
        "\<forall>x\<in>set pre. length (members x) < length (members c)"
        "\<forall>x\<in>set post. length (members x) \<le> length (members c)" by blast
    show ?thesis
      by (rule exI [of _ "vc # pre"], rule exI [of _ post]) (use p True in simp)
  next
    case False
    then have r: "scan_loop (Some vc) rest = Some c" using Cons.prems by simp
    from scan_loop_Some [OF r] show ?thesis
    proof
      assume a: "c = vc \<and> (\<forall>x\<in>set rest. length (members x) \<le> length (members vc))"
      show ?thesis
        by (rule exI [of _ "[]"], rule exI [of _ rest]) (use a False in simp)
    next
      assume "\<exists>pre post. rest = pre @ c # post
             \<and> length (members vc) < length (members c)
             \<and> (\<forall>x\<in>set pre. length (members x) < length (members c))
             \<and> (\<forall>x\<in>set post. length (members x) \<le> length (members c))"
      then obtain pre post where p: "rest = pre @ c # post"
        "length (members vc) < length (members c)"
        "\<forall>x\<in>set pre. length (members x) < length (members c)"
        "\<forall>x\<in>set post. length (members x) \<le> length (members c)" by blast
      have "members c \<noteq> []" using p(2) by auto
      then show ?thesis
        by (intro exI [of _ "vc # pre"] exI [of _ post]) (use p in simp)
    qed
  qed
qed

text \<open>
  Claim C9, amended. \<^verbatim>\<open>scanGuild\<close> calls \<^verbatim>\<open>joinChannel\<close> if and only if some voice
  channel has at least one member, and the channel it joins is the first, in the order
  of the scan, among the voice channels with the most members, where every member of
  the channel counts, bots included.
\<close>

theorem scanGuild_most_members:
  "(scanGuild fetched = None \<longleftrightarrow> (\<forall>x\<in>set (voice_channels fetched). members x = []))
   \<and> (\<forall>c. scanGuild fetched = Some c \<longrightarrow>
        (\<exists>pre post. voice_channels fetched = pre @ c # post \<and> members c \<noteq> []
           \<and> (\<forall>x\<in>set pre. length (members x) < length (members c))
           \<and> (\<forall>x\<in>set post. length (members x) \<le> length (members c))))"
proof (intro conjI allI impI)
  show "scanGuild fetched = None \<longleftrightarrow> (\<forall>x\<in>set (voice_channels fetched). members x = [])"
    unfolding scanGuild_def by (rule scan_loop_None)
next
  fix c
  assume "scanGuild fetched = Some c"
  then have "scan_loop None (voice_channels fetched) = Some c" by (simp add: scanGuild_def)
  then show "\<exists>pre post. voice_channels fetched = pre @ c # post \<and> members c \<noteq> []
           \<and> (\<forall>x\<in>set pre. length (members x) < length (members c))
           \<and> (\<forall>x\<in>set post. length (members x) \<le> length (members c))"
    by (rule scan_loop_first_largest)
qed

theorem scanGuild_most_members_witness:
  "scanGuild [None, Some quiet] = None
   \<and> scanGuild [Some general, None, Some quiet, Some lobby, Some lounge, Some arcade] = Some lounge
   \<and> voice_channels [Some general, None, Some quiet, Some lobby, Some lounge, Some arcade] = [quiet, lobby] @ lounge # [arcade]"
proof -
  have n: "\<forall>x\<in>set (voice_channels [None, Some quiet]). members x = []"
    by (simp add: voice_channels_def quiet_def)
  have s: "scanGuild [Some general, None, Some quiet, Some lobby, Some lounge, Some arcade] = Some lounge"
    by (simp add: scanGuild_def voice_channels_def general_def quiet_def lobby_def lounge_def
          arcade_def)
  have v: "voice_channels [Some general, None, Some quiet, Some lobby, Some lounge, Some arcade] = [quiet, lobby] @ lounge # [arcade]"
    by (simp add: voice_channels_def general_def quiet_def lobby_def lounge_def arcade_def)
  from scanGuild_most_members [of "[None, Some quiet]"] n
       scanGuild_most_members [of "[Some general, None, Some quiet, Some lobby, Some lounge, Some arcade]"] s v
  show ?thesis by blast
qed

text \<open>
  Claim C9 as stated fails: of two voice channels, one holding two bots and the other
  one person, \<^verbatim>\<open>scanGuild\<close> joins the one with the bots, which has fewer members that
  are not bots.
\<close>

theorem scanGuild_bots_counterexample:
  "scanGuild [Some arcade, Some lobby] = Some arcade
   \<and> length (non_bot_members arcade) < length (non_bot_members lobby)"
  by (simp add: scanGuild_def voice_channels_def non_bot_members_def arcade_def lobby_def
        jukebox_def recorder_def alice_def)

section \<open>monitorMember\<close>

text \<open>
  Claim C6, amended. For a member whose guild has a connection, \<^verbatim>\<open>monitorMember\<close> does
  nothing when the receive stream of the member holds unread bytes
  (\<^verbatim>\<open>readableLength > 0\<close>). When it holds none (and \<^verbatim>\<open>pipeline\<close> accepts its
  arguments), \<^verbatim>\<open>monitorMember\<close> makes a new decoder, pipes the receive stream into it,
  puts it in \<^verbatim>\<open>streams\<close> under the user id in place of any decoder registered there
  before, registers the connection and emits \<^verbatim>\<open>userStream\<close>, whether or not the user
  is monitored already.
\<close>

theorem monitorMember_guard:
  "(\<forall>c. getVoiceConnection k (member_guild m) = Some c
         \<and> readableLength (receiver_subscribe k c (member_id m)) > 0 \<longrightarrow>
        monitorMember k vm m ch = (Inr (), vm, []))
   \<and> (\<forall>c. getVoiceConnection k (member_guild m) = Some c
         \<and> readableLength (receiver_subscribe k c (member_id m)) = 0
         \<and> stream_pipeline k (Some (stream_handle (receiver_subscribe k c (member_id m))))
              (decoders_made vm) = None \<longrightarrow>
        monitorMember k vm m ch =
          (Inr (),
           vm\<lparr> decoders_made := Suc (decoders_made vm),
                streams := (streams vm)(member_id m \<mapsto> decoders_made vm),
                connections := (connections vm)(member_id m \<mapsto> c) \<rparr>,
           [NewOpusDecoder (decoders_made vm),
            StreamPipeline (Some (stream_handle (receiver_subscribe k c (member_id m))))
              (decoders_made vm),
            DecoderOn (decoders_made vm) ''error'',
            DecoderOn (decoders_made vm) ''error'',
            DecoderOn (decoders_made vm) ''close'',
            ReceiveStreamOn (stream_handle (receiver_subscribe k c (member_id m))) ''close'',
            EmitUserStream (member_id m) (displayName m) ch (decoders_made vm)]))"
  by (simp add: monitorMember_def Let_def)

theorem monitorMember_guard_witness:
  "monitorMember (sdk0 1) vm0 alice lobby = (Inr (), vm0, [])
   \<and> monitorMember (sdk0 0) vm0 alice lobby =
       (Inr (),
        vm0\<lparr> decoders_made := 1, streams := [''u1'' \<mapsto> 0], connections := [''u1'' \<mapsto> 7] \<rparr>,
        [NewOpusDecoder 0, StreamPipeline (Some 3) 0, DecoderOn 0 ''error'',
         DecoderOn 0 ''error'', DecoderOn 0 ''close'', ReceiveStreamOn 3 ''close'',
         EmitUserStream ''u1'' ''Alice'' lobby 0])"
  using monitorMember_guard [of "sdk0 1" alice vm0 lobby]
        monitorMember_guard [of "sdk0 0" alice vm0 lobby]
  by (simp add: sdk0_def alice_def vm0_def)

text \<open>
  Claim C6 as stated fails: two calls in succession for the same member, whose receive
  stream is the same at both and holds no unread bytes, make two decoders and emit
  \<^verbatim>\<open>userStream\<close> twice; the second call is no no-op.
\<close>

theorem monitor_twice_counterexample:
  "monitorMember (sdk0 0) vm0 alice lobby =
     (Inr (),
      vm0\<lparr> decoders_made := 1, streams := [''u1'' \<mapsto> 0], connections := [''u1'' \<mapsto> 7] \<rparr>,
      [NewOpusDecoder 0, StreamPipeline (Some 3) 0, DecoderOn 0 ''error'',
       DecoderOn 0 ''error'', DecoderOn 0 ''close'', ReceiveStreamOn 3 ''close'',
       EmitUserStream ''u1'' ''Alice'' lobby 0])
   \<and> monitorMember (sdk0 0)
       (vm0\<lparr> decoders_made := 1, streams := [''u1'' \<mapsto> 0], connections := [''u1'' \<mapsto> 7] \<rparr>)
       alice lobby =
     (Inr (),
      vm0\<lparr> decoders_made := 2, streams := [''u1'' \<mapsto> 1], connections := [''u1'' \<mapsto> 7] \<rparr>,
      [NewOpusDecoder 1, StreamPipeline (Some 3) 1, DecoderOn 1 ''error'',
       DecoderOn 1 ''error'', DecoderOn 1 ''close'', ReceiveStreamOn 3 ''close'',
       EmitUserStream ''u1'' ''Alice'' lobby 1])"
  by (simp add: monitorMember_def Let_def sdk0_def alice_def vm0_def)

section \<open>The utterance pipeline\<close>

lemma run_try_catch:
  "run w (try_catch t h) vm =
     (case run w t vm of
        (es, vm1, None) \<Rightarrow> (es, vm1, None)
      | (es, vm1, Some e) \<Rightarrow>
          (case run w (h e) vm1 of (es2, vm2, out) \<Rightarrow> (es @ es2, vm2, out)))"
proof (induction t arbitrary: vm)
  case Return
  then show ?case by simp
next
  case (Throw e)
  then show ?case by (simp split: prod.splits)
next
  case (LogError e t)
  then show ?case by (simp split: prod.splits option.splits)
next
  case (Callback u s t)
  then show ?case by (simp split: prod.splits option.splits)
next
  case (AwaitTranscribe b k)
  then show ?case by (simp add: Let_def split: prod.splits option.splits)
next
  case (AwaitFetchBotName a k)
  then show ?case by (simp add: Let_def split: prod.splits option.splits)
next
  case (AwaitEnsureUserExists a b k)
  then show ?case by (simp add: Let_def split: prod.splits option.splits)
next
  case (AwaitEnsureRoomExists a k)
  then show ?case by (simp add: Let_def split: prod.splits option.splits)
next
  case (AwaitEnsureParticipantInRoom a b k)
  then show ?case by (simp add: Let_def split: prod.splits option.splits)
next
  case (AwaitComposeState a b c d k)
  then show ?case by (simp add: Let_def split: prod.splits option.splits)
next
  case (AwaitHandleMessage a b c d k)
  then show ?case by (simp add: Let_def split: prod.splits option.splits)
next
  case (AwaitTextToSpeech a k)
  then show ?case by (simp add: Let_def split: prod.splits option.splits)
qed

lemma after_raise_append:
  "after_raise (es @ ys) =
     (case after_raise es of None \<Rightarrow> after_raise ys | Some (e, post) \<Rightarrow> Some (e, post @ ys))"
  by (induction es rule: after_raise.induct) simp_all

lemma after_raise_raised:
  "after_raise (raised r) = (case r of Inl e \<Rightarrow> Some (e, []) | Inr v \<Rightarrow> None)"
  by (simp add: raised_def split: sum.splits)

lemma after_raise_played: "after_raise (snd (snd (playAudioStream vm u s))) = None"
  by (simp add: playAudioStream_def connection_subscribe_def Let_def split: option.splits)

lemma after_raise_unhandled: "after_raise (unhandled r) = None"
  by (simp add: unhandled_def split: sum.splits)

lemma stops_Return: "stops_at_raise (run w Return vm)"
  by (simp add: stops_at_raise_def)

lemma stops_Callback: "stops_at_raise (run w (Callback u s Return) vm)"
proof -
  obtain r vm1 played where p: "playAudioStream vm u s = (r, vm1, played)"
    by (cases "playAudioStream vm u s")
  have "after_raise played = None" using after_raise_played [of vm u s] p by simp
  then show ?thesis
    by (simp add: p stops_at_raise_def after_raise_append after_raise_unhandled)
qed

lemma stops_await:
  assumes "\<And>v. stops_at_raise (run w (k v) vm)"
      and "\<And>es. after_raise (ef # es) = after_raise es"
  shows "stops_at_raise
           (case run w (await_value r k) vm of (es, vm1, out) \<Rightarrow> (ef # raised r @ es, vm1, out))"
proof (cases r)
  case (Inl e)
  then show ?thesis
    by (simp add: await_value_def stops_at_raise_def raised_def assms(2))
next
  case (Inr v)
  then show ?thesis using assms(1) [of v]
    by (simp add: await_value_def stops_at_raise_def raised_def assms(2) split: prod.splits)
qed

lemma stops_AwaitTranscribe:
  assumes "\<And>v. stops_at_raise (run w (k v) vm)"
  shows "stops_at_raise (run w (AwaitTranscribe b (\<lambda>r. await_value r k)) vm)"
  unfolding run.simps Let_def by (rule stops_await) (simp_all add: assms)

lemma stops_AwaitFetchBotName:
  assumes "\<And>v. stops_at_raise (run w (k v) vm)"
  shows "stops_at_raise (run w (AwaitFetchBotName a (\<lambda>r. await_value r k)) vm)"
  unfolding run.simps Let_def by (rule stops_await) (simp_all add: assms)

lemma stops_AwaitEnsureUserExists:
  assumes "\<And>v. stops_at_raise (run w (k v) vm)"
  shows "stops_at_raise (run w (AwaitEnsureUserExists a b (\<lambda>r. await_value r k)) vm)"
  unfolding run.simps Let_def by (rule stops_await) (simp_all add: assms)

lemma stops_AwaitEnsureRoomExists:
  assumes "\<And>v. stops_at_raise (run w (k v) vm)"
  shows "stops_at_raise (run w (AwaitEnsureRoomExists a (\<lambda>r. await_value r k)) vm)"
  unfolding run.simps Let_def by (rule stops_await) (simp_all add: assms)

lemma stops_AwaitEnsureParticipantInRoom:
  assumes "\<And>v. stops_at_raise (run w (k v) vm)"
  shows "stops_at_raise (run w (AwaitEnsureParticipantInRoom a b (\<lambda>r. await_value r k)) vm)"
  unfolding run.simps Let_def by (rule stops_await) (simp_all add: assms)

lemma stops_AwaitComposeState:
  assumes "\<And>v. stops_at_raise (run w (k v) vm)"
  shows "stops_at_raise (run w (AwaitComposeState a b c d (\<lambda>r. await_value r k)) vm)"
  unfolding run.simps Let_def by (rule stops_await) (simp_all add: assms)

lemma stops_AwaitHandleMessage:
  assumes "\<And>v. stops_at_raise (run w (k v) vm)"
  shows "stops_at_raise (run w (AwaitHandleMessage a b c d (\<lambda>r. await_value r k)) vm)"
  unfolding run.simps Let_def by (rule stops_await) (simp_all add: assms)

lemma stops_AwaitTextToSpeech:
  assumes "\<And>v. stops_at_raise (run w (k v) vm)"
  shows "stops_at_raise (run w (AwaitTextToSpeech a (\<lambda>r. await_value r k)) vm)"
  unfolding run.simps Let_def by (rule stops_await) (simp_all add: assms)

lemmas stops_intros = stops_AwaitTranscribe stops_AwaitFetchBotName stops_AwaitEnsureUserExists stops_AwaitEnsureRoomExists stops_AwaitEnsureParticipantInRoom stops_AwaitComposeState stops_AwaitHandleMessage stops_AwaitTextToSpeech

lemma stops_respond: "stops_at_raise (run w (respond user_id text userIdUUID room_id state) vm)"
  unfolding respond_def Let_def
  by (auto simp del: run.simps simp add: stops_Return stops_Callback
        split: option.splits list.splits intro!: stops_intros)

lemma stops_pipeline_body:
  "stops_at_raise (run w (pipeline_body env user_id userName channelId inputBuffer) vm)"
  unfolding pipeline_body_def Let_def
  by (auto simp del: run.simps simp add: stops_Return stops_respond intro!: stops_intros)

lemma after_raise_skip: "\<forall>e0. x \<noteq> Raised e0 \<Longrightarrow> after_raise (x # es) = after_raise es"
  by (cases x) simp_all

lemma after_raise_only_log:
  assumes "after_raise es = None \<or> (\<exists>e. after_raise es = Some (e, [ConsoleError m e]))"
      and "es = pre @ Raised e # post"
  shows "post = [ConsoleError m e]"
  using assms
proof (induction es arbitrary: pre)
  case Nil
  then show ?case by simp
next
  case (Cons x es)
  show ?case
  proof (cases pre)
    case Nil
    then have "x = Raised e" and "es = post" using Cons.prems(2) by simp_all
    then show ?thesis using Cons.prems(1) by auto
  next
    case c: (Cons y pre')
    then have es: "es = pre' @ Raised e # post" using Cons.prems(2) by simp
    show ?thesis
    proof (cases "\<exists>e0. x = Raised e0")
      case True
      then obtain e0 where "x = Raised e0" by blast
      then have "es = [ConsoleError m e0]" using Cons.prems(1) by simp
      then have "[ConsoleError m e0] = pre' @ Raised e # post" using es by simp
      then show ?thesis by (simp add: Cons_eq_append_conv)
    next
      case False
      then have "after_raise (x # es) = after_raise es" by (intro after_raise_skip) blast
      then show ?thesis using Cons.IH [OF _ es] Cons.prems(1) by simp
    qed
  qed
qed

lemma run_pipeline:
  "run w (pipeline env user_id userName channelId inputBuffer) vm =
     (case run w (pipeline_body env user_id userName channelId inputBuffer) vm of
        (es, vm1, None) \<Rightarrow> (es, vm1, None)
      | (es, vm1, Some e) \<Rightarrow>
          (es @ [ConsoleError ''Error processing audio stream:'' e], vm1, None))"
  by (simp add: pipeline_def run_try_catch split: prod.splits option.splits)

text \<open>
  Claim C7. Whatever the collaborators answer, the promise of the pipeline resolves: no
  error reaches the caller. Wherever an awaited call of the pipeline (transcription,
  bot name, the agent upserts, state composition, message handling, speech synthesis)
  rejects, the only thing that follows in the trace is the \<^verbatim>\<open>console.error\<close> of the
  catch block with that error: no further step runs.
\<close>

theorem pipeline_catches_errors:
  assumes "run w (pipeline env user_id userName channelId inputBuffer) vm = (es, vm1, out)"
  shows "out = None
       \<and> (\<forall>pre e post. es = pre @ Raised e # post \<longrightarrow>
             post = [ConsoleError ''Error processing audio stream:'' e])"
proof -
  obtain bes bvm bout
    where b: "run w (pipeline_body env user_id userName channelId inputBuffer) vm = (bes, bvm, bout)"
    by (cases "run w (pipeline_body env user_id userName channelId inputBuffer) vm")
  have s: "case after_raise bes of None \<Rightarrow> bout = None | Some (e, post) \<Rightarrow> post = [] \<and> bout = Some e"
    using stops_pipeline_body [of w env user_id userName channelId inputBuffer vm]
    by (simp add: b stops_at_raise_def)
  have o: "out = None" using assms by (simp add: run_pipeline b split: option.splits)
  have a: "after_raise es = None
         \<or> (\<exists>e. after_raise es = Some (e, [ConsoleError ''Error processing audio stream:'' e]))"
  proof (cases bout)
    case None
    then show ?thesis using assms s by (auto simp: run_pipeline b split: option.splits)
  next
    case (Some e)
    then have "es = bes @ [ConsoleError ''Error processing audio stream:'' e]"
      using assms by (simp add: run_pipeline b)
    moreover have "after_raise bes = Some (e, [])"
      using s Some by (auto split: option.splits)
    ultimately show ?thesis by (simp add: after_raise_append)
  qed
  show ?thesis using o after_raise_only_log [OF a] by blast
qed

theorem pipeline_catches_errors_witness:
  "run (world_down (Some ''hello'')) (pipeline env0 ''u1'' ''Alice'' ''c2'' [1, 2, 3]) vm0 =
     ([Transcribe [1, 2, 3], FetchBotName ''token'',
        EnsureUserExists ''uuid-app'' ''Lily'', EnsureUserExists ''uuid-u1'' ''Alice'',
        EnsureRoomExists ''uuid-c2'']
        @ Raised (Thrown ''down'')
        # [ConsoleError ''Error processing audio stream:'' (Thrown ''down'')],
      vm0, None)"
proof -
  obtain es vm1 out
    where r: "run (world_down (Some ''hello'')) (pipeline env0 ''u1'' ''Alice'' ''c2'' [1, 2, 3]) vm0
                = (es, vm1, out)"
    by (cases "run (world_down (Some ''hello'')) (pipeline env0 ''u1'' ''Alice'' ''c2'' [1, 2, 3]) vm0")
  have e: "es = [Transcribe [1, 2, 3], FetchBotName ''token'',
        EnsureUserExists ''uuid-app'' ''Lily'', EnsureUserExists ''uuid-u1'' ''Alice'',
        EnsureRoomExists ''uuid-c2'']
        @ Raised (Thrown ''down'') # drop 6 es"
    and v: "vm1 = vm0"
    using r
    by (auto simp: pipeline_def pipeline_body_def await_value_def raised_def world_down_def
          world0_def env0_def Let_def)
  note c = pipeline_catches_errors [OF r]
  have o: "out = None" using c by blast
  have "drop 6 es = [ConsoleError ''Error processing audio stream:'' (Thrown ''down'')]"
    using c e by blast
  then show ?thesis using r e v o by simp
qed





section \<open>The event loop\<close>

lemma advance_pipeline:
  "advance (pipeline env user_id userName channelId inputBuffer) vm =
     ([Transcribe inputBuffer], vm, pipeline env user_id userName channelId inputBuffer)"
  by (simp add: pipeline_def pipeline_body_def)

text \<open>
  Claim C4, amended. When an empty chunk arrives after a silence gap while zero bytes
  are accumulated, the callback flushes all the same: it starts a pipeline run on the
  empty utterance, whose first act is the call of the transcription service with the
  empty buffer.
\<close>

theorem empty_utterance_forwarded:
  assumes "totalLength (acc s) = 0" and "now - lastChunkTime (acc s) > maxSilenceTime"
  shows "step env user_id userName channelId s (Chunk now []) =
           s\<lparr> acc := \<lparr> buffers = [], totalLength = 0, lastChunkTime = now \<rparr>,
              in_flight := in_flight s @ [pipeline env user_id userName channelId []],
              effects := effects s @ [Transcribe []] \<rparr>"
  using assms
  by (simp add: step_def monitor_callback_def Buffer_concat_def Let_def advance_pipeline)

theorem empty_utterance_forwarded_witness:
  "effects (step env0 ''u1'' ''Alice'' ''c2'' (start 0 vm0) (Chunk 501 [])) = [Transcribe []]
   \<and> acc (step env0 ''u1'' ''Alice'' ''c2'' (start 0 vm0) (Chunk 501 [])) =
       \<lparr> buffers = [], totalLength = 0, lastChunkTime = 501 \<rparr>"
  using empty_utterance_forwarded [of "start 0 vm0" 501 env0 "''u1''" "''Alice''" "''c2''"]
  by (simp add: start_def initial_def maxSilenceTime_def)

text \<open>
  Claim C4 as stated fails: an empty chunk 501 ms after the start of the monitor is
  flushed as an empty utterance, and the pipeline started on it calls the transcription
  service.
\<close>

theorem empty_utterance_counterexample:
  "snd (monitor_callback (initial 0) 501 []) = Some []
   \<and> fst (advance (pipeline env0 ''u1'' ''Alice'' ''c2'' []) vm0) = [Transcribe []]"
  by (simp add: monitor_callback_def initial_def maxSilenceTime_def Buffer_concat_def Let_def
        pipeline_def pipeline_body_def)

lemma utterances_of_append [simp]:
  "utterances_of (xs @ ys) = utterances_of xs @ utterances_of ys"
  by (simp add: utterances_of_def)

lemma utterances_of_Nil [simp]: "utterances_of [] = []"
  by (simp add: utterances_of_def)

lemma utterances_of_Cons [simp]:
  "utterances_of (ef # es) =
     (case ef of Transcribe b \<Rightarrow> [b] | _ \<Rightarrow> []) @ utterances_of es"
  by (simp add: utterances_of_def)

lemma utterances_of_played: "utterances_of (snd (snd (playAudioStream vm u s))) = []"
  by (simp add: playAudioStream_def connection_subscribe_def Let_def split: option.splits)

lemma utterances_of_unhandled [simp]: "utterances_of (unhandled r) = []"
  by (cases r) (simp_all add: unhandled_def)

lemma utterances_of_raised [simp]: "utterances_of (raised r) = []"
  by (cases r) (simp_all add: raised_def)

lemma advance_no_transcribe:
  "no_transcribe t \<Longrightarrow>
     utterances_of (fst (advance t vm)) = [] \<and> no_transcribe (snd (snd (advance t vm)))"
proof (induction t arbitrary: vm)
  case (LogError e t)
  obtain es vm1 t1 where a: "advance t vm = (es, vm1, t1)" by (cases "advance t vm")
  show ?case using LogError.IH [of vm] LogError.prems by (simp add: a)
next
  case (Callback u s t)
  obtain r vm1 played where p: "playAudioStream vm u s = (r, vm1, played)"
    by (cases "playAudioStream vm u s")
  obtain es vm2 t1 where a: "advance t vm1 = (es, vm2, t1)" by (cases "advance t vm1")
  have "utterances_of played = []" using utterances_of_played [of vm u s] p by simp
  then show ?case using Callback.IH [of vm1] Callback.prems by (simp add: p a)
qed simp_all

lemma no_transcribe_waiting: "no_transcribe t \<Longrightarrow> waiting t"
  by (cases t) (simp_all add: waiting_def Let_def)

lemma settle_utterances: "utterances_of (fst (settle w t)) = []"
  by (cases t) (simp_all add: Let_def)

lemma resume_waiting:
  assumes "waiting t"
  shows "utterances_of (fst (resume w t vm)) = [] \<and> waiting (snd (snd (resume w t vm)))"
proof -
  obtain es1 t1 where s: "settle w t = (es1, t1)" by (cases "settle w t")
  obtain es2 vm1 t2 where a: "advance t1 vm = (es2, vm1, t2)" by (cases "advance t1 vm")
  have n: "no_transcribe t1" using assms s by (auto simp: waiting_def dest: spec [of _ w])
  from advance_no_transcribe [OF n, of vm] settle_utterances [of w t]
  show ?thesis by (simp add: resume_def s a no_transcribe_waiting)
qed

lemma no_transcribe_try_catch:
  "no_transcribe t \<Longrightarrow> (\<And>e. no_transcribe (h e)) \<Longrightarrow> no_transcribe (try_catch t h)"
  by (induction t) simp_all

lemma no_transcribe_await_value:
  "(\<And>v. no_transcribe (k v)) \<Longrightarrow> no_transcribe (await_value r k)"
  by (simp add: await_value_def split: sum.splits)

lemma no_transcribe_respond: "no_transcribe (respond user_id text userIdUUID room_id state)"
  by (simp add: respond_def await_value_def Let_def split: sum.splits option.splits list.splits)

lemma waiting_pipeline: "waiting (pipeline env user_id userName channelId inputBuffer)"
  unfolding waiting_def pipeline_def pipeline_body_def
  by (auto simp: Let_def no_transcribe_respond intro!: no_transcribe_try_catch no_transcribe_await_value)

lemma chunks_of_snoc: "concat (chunks_of (evs @ [ev])) = concat (chunks_of evs) @ chunk_of ev"
  by (cases ev) (simp_all add: chunks_of_def chunk_of_def)

lemma step_Settle_acc: "acc (step env user_id userName channelId s (Settle i w)) = acc s"
  by (simp add: step_def split: prod.splits)

lemma step_sound:
  assumes "sound s"
  shows "sound (step env user_id userName channelId s ev)
       \<and> concat (utterances_of (effects (step env user_id userName channelId s ev)))
           @ concat (buffers (acc (step env user_id userName channelId s ev))) =
         concat (utterances_of (effects s)) @ concat (buffers (acc s)) @ chunk_of ev"
proof (cases ev)
  case (Chunk now b)
  have c: "consistent (acc s)" and w: "\<forall>t\<in>set (in_flight s). waiting t"
    using assms by (simp_all add: sound_def)
  obtain a1 out where m: "monitor_callback (acc s) now b = (a1, out)"
    by (cases "monitor_callback (acc s) now b")
  have c1: "consistent a1" using monitor_callback_consistent [OF c, of now b] m by simp
  show ?thesis
  proof (cases out)
    case None
    have "buffers a1 = buffers (acc s) @ [b]"
      using monitor_callback_buffers [of "acc s" now b] m None by simp
    then show ?thesis using c1 w
      by (simp add: Chunk step_def m None sound_def chunk_of_def)
  next
    case (Some u)
    have u: "u = concat (buffers (acc s)) @ b"
      using monitor_callback_out [OF c, of now b u] m Some by simp
    have "buffers a1 = []"
      using monitor_callback_buffers [of "acc s" now b] m Some by simp
    then show ?thesis using c1 w u
      by (simp add: Chunk step_def m Some sound_def chunk_of_def advance_pipeline
            waiting_pipeline)
  qed
next
  case (Settle i w)
  show ?thesis
  proof (cases "i < length (in_flight s)")
    case False
    then show ?thesis using assms by (simp add: Settle step_def chunk_of_def)
  next
    case True
    then have wt: "waiting (in_flight s ! i)" using assms by (simp add: sound_def)
    obtain es vm1 t where r: "resume w (in_flight s ! i) (manager s) = (es, vm1, t)"
      by (cases "resume w (in_flight s ! i) (manager s)")
    have u: "utterances_of es = []" and t: "waiting t"
      using resume_waiting [OF wt, of w "manager s"] r by simp_all
    have "\<forall>x\<in>set ((in_flight s)[i := t]). waiting x"
      using assms t by (auto simp: sound_def dest!: set_update_subset_insert [THEN subsetD])
    then show ?thesis using assms u
      by (simp add: Settle step_def True r sound_def chunk_of_def)
  qed
qed

lemma exec_snoc:
  "exec env user_id userName channelId s (evs @ [ev]) =
     step env user_id userName channelId (exec env user_id userName channelId s evs) ev"
  by (simp add: exec_def)

lemma exec_sound:
  assumes "sound s"
  shows "sound (exec env user_id userName channelId s evs)
       \<and> concat (utterances_of (effects (exec env user_id userName channelId s evs)))
           @ concat (buffers (acc (exec env user_id userName channelId s evs))) =
         concat (utterances_of (effects s)) @ concat (buffers (acc s)) @ concat (chunks_of evs)"
proof (induction evs rule: rev_induct)
  case Nil
  then show ?case using assms by (simp add: exec_def chunks_of_def)
next
  case (snoc ev evs)
  from step_sound [of "exec env user_id userName channelId s evs" env user_id userName channelId ev]
       snoc
  show ?case by (simp add: exec_snoc chunks_of_snoc)
qed

lemma sound_start: "sound (start t0 vm)"
  by (simp add: sound_def start_def consistent_initial)

text \<open>
  Claim C10, amended. Under any interleaving of chunks and of settlings of the calls
  that pipeline runs in flight wait on, the utterances handed to the transcription
  service so far, in order, followed by the chunks still in the accumulator, are exactly
  the chunks delivered so far, in order: no byte is repeated or moved, and a byte that
  is in no utterance is still in the accumulator. The settling of a call leaves the
  accumulator as it is, and a flush leaves it empty in the same step, before anything is
  awaited.
\<close>

theorem chunks_flushed_once:
  "concat (utterances_of (effects (exec env user_id userName channelId (start t0 vm) evs)))
     @ concat (buffers (acc (exec env user_id userName channelId (start t0 vm) evs))) =
   concat (chunks_of evs)
   \<and> acc (step env user_id userName channelId s (Settle i w)) = acc s
   \<and> (\<forall>u. snd (monitor_callback a now b) = Some u \<longrightarrow>
         buffers (fst (monitor_callback a now b)) = []
       \<and> totalLength (fst (monitor_callback a now b)) = 0)"
proof (intro conjI allI impI)
  show "concat (utterances_of (effects (exec env user_id userName channelId (start t0 vm) evs)))
     @ concat (buffers (acc (exec env user_id userName channelId (start t0 vm) evs))) =
   concat (chunks_of evs)"
    using exec_sound [OF sound_start, of env user_id userName channelId t0 vm evs]
    by (simp add: start_def initial_def)
next
  show "acc (step env user_id userName channelId s (Settle i w)) = acc s"
    by (rule step_Settle_acc)
next
  fix u
  assume "snd (monitor_callback a now b) = Some u"
  then show "buffers (fst (monitor_callback a now b)) = []"
    and "totalLength (fst (monitor_callback a now b)) = 0"
    by (auto simp: monitor_callback_def Let_def split: if_splits)
qed

lemma exec_evs0:
  "utterances_of (effects (exec env0 ''u1'' ''Alice'' ''c2'' (start 0 vm0) evs0)) = [[1, 2], [3, 4, 5]]
   \<and> acc (exec env0 ''u1'' ''Alice'' ''c2'' (start 0 vm0) evs0) =
       \<lparr> buffers = [], totalLength = 0, lastChunkTime = 1300 \<rparr>"
  by (simp add: exec_def evs0_def step_def start_def initial_def monitor_callback_def
        maxSilenceTime_def Buffer_concat_def Let_def advance_pipeline resume_def
        pipeline_def pipeline_body_def await_value_def raised_def world0_def env0_def)

theorem chunks_flushed_once_witness:
  "concat (utterances_of (effects (exec env0 ''u1'' ''Alice'' ''c2'' (start 0 vm0) evs0)))
     @ concat (buffers (acc (exec env0 ''u1'' ''Alice'' ''c2'' (start 0 vm0) evs0))) =
   [1, 2, 3, 4, 5]
   \<and> buffers (fst (monitor_callback (initial 0) 600 [1, 2])) = []
   \<and> totalLength (fst (monitor_callback (initial 0) 600 [1, 2])) = 0"
proof -
  have m: "snd (monitor_callback (initial 0) 600 [1, 2]) = Some [1, 2]"
    by (simp add: monitor_callback_def initial_def maxSilenceTime_def Buffer_concat_def Let_def)
  have c: "concat (chunks_of evs0) = [1, 2, 3, 4, 5]"
    by (simp add: chunks_of_def evs0_def)
  from chunks_flushed_once [of env0 "''u1''" "''Alice''" "''c2''" 0 vm0 evs0 _ _ _ "initial 0" 600 "[1, 2]"]
       m c
  show ?thesis by simp
qed

text \<open>
  Claim C10 as stated fails: two chunks 100 ms apart, the first 100 ms after the start
  of the monitor, are in no flushed utterance; both stay in the accumulator, and nothing
  but a later chunk can flush them.
\<close>

theorem trailing_chunks_counterexample:
  "utterances_of
     (effects (exec env0 ''u1'' ''Alice'' ''c2'' (start 0 vm0) [Chunk 100 [1], Chunk 200 [2]])) = []
   \<and> buffers (acc (exec env0 ''u1'' ''Alice'' ''c2'' (start 0 vm0) [Chunk 100 [1], Chunk 200 [2]])) =
       [[1], [2]]"
  by (simp add: exec_def step_def start_def initial_def monitor_callback_def
        maxSilenceTime_def Let_def)

end
